theory Spec2Isabelle
  imports Main "HOL-Library.Log_Nat"
begin

section \<open>Strings, form data and \<open>parseInt\<close>\<close>

text \<open>
  A JavaScript string is modelled as an Isabelle \<open>string\<close>; a \<open>char\<close> stands for one
  UTF-16 code unit below 256 (the Latin-1 range), which covers every literal the program
  compares against.  Bytes of a file or buffer are natural numbers.
\<close>

type_synonym bytes = "nat list"

text \<open>A browser \<open>File\<close>: its \<open>name\<close>, its \<open>type\<close> (the MIME type) and its bytes;
  \<open>size\<close> is the number of bytes.\<close>

record jsfile =
  name :: string
  mime :: string
  content :: bytes

definition size_bytes :: "jsfile \<Rightarrow> nat" where
  "size_bytes f = length (content f)"

text \<open>What a thrown value looks like to \<open>err instanceof Error ? err.message : ...\<close>.\<close>

datatype js_thrown = Error string | NonError

text \<open>An entry of a \<open>FormData\<close> is a string or a file; \<open>get\<close> returns the first entry
  of that name, or \<open>null\<close> (here \<open>None\<close>).\<close>

datatype form_value = FString string | FFile jsfile

type_synonym form_data = "(string \<times> form_value) list"

definition form_get :: "form_data \<Rightarrow> string \<Rightarrow> form_value option" where
  "form_get formData k = map_of formData k"

text \<open>\<open>ToString\<close> of the value that \<open>formData.get(...) as string\<close> hands to \<open>parseInt\<close>.\<close>

definition to_string :: "form_value option \<Rightarrow> string" where
  "to_string v = (case v of None \<Rightarrow> ''null''
                  | Some (FString s) \<Rightarrow> s
                  | Some (FFile f) \<Rightarrow> ''[object File]'')"

text \<open>White space that \<open>parseInt\<close> skips: TAB, LF, VT, FF, CR, SP and NBSP.\<close>

definition is_ws :: "char \<Rightarrow> bool" where
  "is_ws c = ((of_char c :: nat) \<in> {9, 10, 11, 12, 13, 32, 160})"

definition digit_value :: "char \<Rightarrow> nat option" where
  "digit_value c =
     (let n = (of_char c :: nat) in
      if 48 \<le> n \<and> n \<le> 57 then Some (n - 48)
      else if 97 \<le> n \<and> n \<le> 122 then Some (n - 87)
      else if 65 \<le> n \<and> n \<le> 90 then Some (n - 55)
      else None)"

definition is_digit :: "nat \<Rightarrow> char \<Rightarrow> bool" where
  "is_digit radix c = (case digit_value c of None \<Rightarrow> False | Some d \<Rightarrow> d < radix)"

definition digits_value :: "nat \<Rightarrow> string \<Rightarrow> nat" where
  "digits_value radix z =
     foldl (\<lambda>a c. a * radix + (case digit_value c of None \<Rightarrow> 0 | Some d \<Rightarrow> d)) 0 z"

text \<open>
  \<open>parseInt(s)\<close> with no radix argument: skip leading white space, read an optional sign,
  switch to radix 16 after a \<open>0x\<close>/\<open>0X\<close> prefix, take the longest prefix of digits and
  ignore whatever follows.  \<open>None\<close> is \<open>NaN\<close>.  The result is kept as the exact integer;
  the JavaScript number is the double nearest to it, and the comparisons the handler makes
  (with 0, 1 and 100) give the same answer on both.
\<close>

definition parseInt :: "string \<Rightarrow> int option" where
  "parseInt s =
     (let s1 = dropWhile is_ws s;
          neg = (case s1 of c # _ \<Rightarrow> c = CHR ''-'' | [] \<Rightarrow> False);
          s2 = (case s1 of c # cs \<Rightarrow> if c = CHR ''-'' \<or> c = CHR ''+'' then cs else s1
                | [] \<Rightarrow> s1);
          hex = (case s2 of c # d # _ \<Rightarrow> c = CHR ''0'' \<and> (d = CHR ''x'' \<or> d = CHR ''X'')
                 | _ \<Rightarrow> False);
          radix = (if hex then 16 else 10);
          s3 = (if hex then drop 2 s2 else s2);
          z = takeWhile (is_digit radix) s3
      in if z = [] then None
         else Some ((if neg then - 1 else 1) * int (digits_value radix z)))"

section \<open>The resize endpoint (\<open>src/app/api/resize/route.ts\<close>)\<close>

subsection \<open>The codec pipeline handed to sharp\<close>

datatype rgba = RGBA nat nat nat nat

datatype fit_mode = Fill

text \<open>The encoder call with the options the handler writes; an option the call does not
  mention is \<open>None\<close>.\<close>

datatype encoder =
    JpegEnc int "bool option" "bool option" bool
  | WebpEnc int nat bool bool
  | PngEnc int nat bool

record sharp_pipeline =
  input :: bytes
  resize_width :: int
  resize_height :: int
  fit :: fit_mode
  background :: rgba
  encode :: encoder

text \<open>The \<open>switch (format)\<close> of the handler: which arm is taken, and what the arm calls.\<close>

datatype switch_arm = Case_jpeg | Case_webp | Case_png | Case_default

definition switch_format :: "string \<Rightarrow> switch_arm" where
  "switch_format format =
     (if format = ''jpeg'' \<or> format = ''jpg'' then Case_jpeg
      else if format = ''webp'' then Case_webp
      else if format = ''png'' then Case_png
      else Case_default)"

fun encoder_of :: "switch_arm \<Rightarrow> int \<Rightarrow> encoder" where
  "encoder_of Case_jpeg quality = JpegEnc quality (Some True) (Some True) True"
| "encoder_of Case_webp quality = WebpEnc quality 6 (quality \<ge> 90) True"
| "encoder_of Case_png quality = PngEnc quality 9 True"
| "encoder_of Case_default quality = JpegEnc 100 None None True"

definition resize_background :: "string \<Rightarrow> rgba" where
  "resize_background format =
     (if format = ''png'' then RGBA 0 0 0 0 else RGBA 255 255 255 1)"

subsection \<open>Responses and effects\<close>

text \<open>A JSON error response with its status, or the binary response (status 200) with
  its headers.\<close>

datatype response =
    Json nat string
  | Image bytes "(string \<times> string) list"

text \<open>What the handler does besides answering: it runs the codec, it logs an error.\<close>

datatype effect = Codec sharp_pipeline | ConsoleError

text \<open>The body of the request: \<open>request.formData()\<close> yields the form, or throws.\<close>

datatype http_body = Multipart form_data | Unparsable

definition mimeTypes :: "(string \<times> string) list" where
  "mimeTypes = [(''jpeg'', ''image/jpeg''), (''jpg'', ''image/jpeg''),
                (''webp'', ''image/webp''), (''png'', ''image/png'')]"

definition response_headers :: "string \<Rightarrow> (string \<times> string) list" where
  "response_headers format =
     [(''Content-Type'', (case map_of mimeTypes format of None \<Rightarrow> ''undefined'' | Some m \<Rightarrow> m)),
      (''Content-Disposition'', ''attachment; filename=\"resized-image.'' @ format @ ''\"''),
      (''Cache-Control'', ''no-store, no-cache, must-revalidate, proxy-revalidate''),
      (''Pragma'', ''no-cache''),
      (''Expires'', ''0'')]"

subsection \<open>The five validation checks, as the handler writes them\<close>

definition SERVER_ALLOWED_TYPES :: "string list" where
  "SERVER_ALLOWED_TYPES = [''image/jpeg'', ''image/jpg'', ''image/png'', ''image/webp'']"

definition SERVER_FORMATS :: "string list" where
  "SERVER_FORMATS = [''jpeg'', ''jpg'', ''png'', ''webp'']"

text \<open>\<open>!imageFile\<close>: \<open>null\<close> and the empty string are falsy, a file is not.\<close>

definition missing_image :: "form_data \<Rightarrow> bool" where
  "missing_image formData =
     (case form_get formData ''image'' of None \<Rightarrow> True
      | Some (FString s) \<Rightarrow> s = []
      | Some (FFile f) \<Rightarrow> False)"

text \<open>\<open>![...].includes(imageFile.type)\<close>: a string entry has no \<open>type\<close>, so the test
  fails for it; the handler never reaches this test with \<open>null\<close>.\<close>

definition unsupported_type :: "form_data \<Rightarrow> bool" where
  "unsupported_type formData =
     (case form_get formData ''image'' of Some (FFile f) \<Rightarrow> mime f \<notin> set SERVER_ALLOWED_TYPES
      | _ \<Rightarrow> True)"

text \<open>\<open>!n\<close> for a number: \<open>NaN\<close> and zero are falsy.\<close>

definition falsy_num :: "int option \<Rightarrow> bool" where
  "falsy_num n = (case n of None \<Rightarrow> True | Some i \<Rightarrow> i = 0)"

text \<open>A comparison with \<open>NaN\<close> is false.\<close>

definition num_le :: "int option \<Rightarrow> int \<Rightarrow> bool" where
  "num_le n k = (case n of None \<Rightarrow> False | Some i \<Rightarrow> i \<le> k)"

definition num_less :: "int option \<Rightarrow> int \<Rightarrow> bool" where
  "num_less n k = (case n of None \<Rightarrow> False | Some i \<Rightarrow> i < k)"

definition num_greater :: "int option \<Rightarrow> int \<Rightarrow> bool" where
  "num_greater n k = (case n of None \<Rightarrow> False | Some i \<Rightarrow> i > k)"

definition field_int :: "form_data \<Rightarrow> string \<Rightarrow> int option" where
  "field_int formData k = parseInt (to_string (form_get formData k))"

definition invalid_dimensions :: "form_data \<Rightarrow> bool" where
  "invalid_dimensions formData =
     (let width = field_int formData ''width''; height = field_int formData ''height''
      in falsy_num width \<or> falsy_num height \<or> num_le width 0 \<or> num_le height 0)"

definition invalid_format :: "form_data \<Rightarrow> bool" where
  "invalid_format formData =
     (case form_get formData ''format'' of Some (FString s) \<Rightarrow> s \<notin> set SERVER_FORMATS
      | _ \<Rightarrow> True)"

definition invalid_quality :: "form_data \<Rightarrow> bool" where
  "invalid_quality formData =
     (let quality = field_int formData ''quality''
      in falsy_num quality \<or> num_less quality 1 \<or> num_greater quality 100)"

subsection \<open>The handler\<close>

definition server_error :: response where
  "server_error = Json 500 ''Failed to process image''"

text \<open>
  The part after validation.  \<open>codec\<close> stands for the external library: it returns the
  encoded bytes or throws.  An entry of the wrong shape would throw a \<open>TypeError\<close> inside
  the \<open>try\<close> block, which is the generic server error.
\<close>

definition process :: "(sharp_pipeline \<Rightarrow> js_thrown + bytes) \<Rightarrow> form_data \<Rightarrow> response \<times> effect list" where
  "process codec formData =
     (case (form_get formData ''image'', field_int formData ''width'',
            field_int formData ''height'', form_get formData ''format'',
            field_int formData ''quality'') of
        (Some (FFile imageFile), Some width, Some height, Some (FString format), Some quality) \<Rightarrow>
          (let processedImage =
                 \<lparr>input = content imageFile, resize_width = width, resize_height = height,
                  fit = Fill, background = resize_background format,
                  encode = encoder_of (switch_format format) quality\<rparr>
           in case codec processedImage of
                Inl e \<Rightarrow> (server_error, [Codec processedImage, ConsoleError])
              | Inr resizedBuffer \<Rightarrow>
                  (Image resizedBuffer (response_headers format), [Codec processedImage]))
      | _ \<Rightarrow> (server_error, [ConsoleError]))"

definition POST :: "(sharp_pipeline \<Rightarrow> js_thrown + bytes) \<Rightarrow> http_body \<Rightarrow> response \<times> effect list" where
  "POST codec body =
     (case body of
        Unparsable \<Rightarrow> (server_error, [ConsoleError])
      | Multipart formData \<Rightarrow>
          if missing_image formData then (Json 400 ''No image file provided'', [])
          else if unsupported_type formData then
            (Json 400 ''Unsupported file type. Only JPEG, JPG, PNG, and WebP images are allowed.'', [])
          else if invalid_dimensions formData then (Json 400 ''Invalid dimensions provided'', [])
          else if invalid_format formData then
            (Json 400 ''Invalid format specified. Only JPEG, JPG, PNG, and WebP are supported.'', [])
          else if invalid_quality formData then (Json 400 ''Invalid quality value'', [])
          else process codec formData)"

definition method_not_allowed :: response where
  "method_not_allowed = Json 405 ''Method not allowed''"

text \<open>The checks in the order of the handler, each with its message.\<close>

definition validation_checks :: "((form_data \<Rightarrow> bool) \<times> string) list" where
  "validation_checks =
     [(missing_image, ''No image file provided''),
      (unsupported_type, ''Unsupported file type. Only JPEG, JPG, PNG, and WebP images are allowed.''),
      (invalid_dimensions, ''Invalid dimensions provided''),
      (invalid_format, ''Invalid format specified. Only JPEG, JPG, PNG, and WebP are supported.''),
      (invalid_quality, ''Invalid quality value'')]"

definition failing_checks :: "form_data \<Rightarrow> string list" where
  "failing_checks formData = map snd (filter (\<lambda>c. fst c formData) validation_checks)"

section \<open>JavaScript numbers\<close>

text \<open>
  A number of the client is a double: a finite value, an infinity or \<open>NaN\<close>.  A finite
  double is kept as the rational it denotes; \<open>+0\<close> and \<open>-0\<close> are one value, and a zero
  divisor counts as \<open>+0\<close> (the only divisor of the program is a quotient of two pixel
  sizes, which is never negative).
\<close>

datatype jsnum = Fin rat | PInf | NInf | NaN

definition pow2 :: "int \<Rightarrow> rat" where
  "pow2 e = (if 0 \<le> e then 2 ^ nat e else 1 / 2 ^ nat (- e))"

text \<open>\<open>\<lfloor>log\<^sub>2 x\<rfloor>\<close> for a positive rational, from the bit lengths of numerator and
  denominator.\<close>

definition ilog2 :: "rat \<Rightarrow> int" where
  "ilog2 x = (let d = bitlen (fst (quotient_of x)) - bitlen (snd (quotient_of x))
              in if pow2 d \<le> x then d else d - 1)"

definition round_ties_even :: "rat \<Rightarrow> int" where
  "round_ties_even x =
     (let f = \<lfloor>x\<rfloor>; d = x - of_int f
      in if d < 1 / 2 then f else if 1 / 2 < d then f + 1 else if even f then f else f + 1)"

text \<open>
  Rounding of an exact result to binary64, to nearest with ties to even: 53 significant
  bits, the spacing of the subnormal range below \<open>2\<^sup>-\<^sup>1\<^sup>0\<^sup>2\<^sup>2\<close>, an infinity from
  \<open>2\<^sup>1\<^sup>0\<^sup>2\<^sup>4\<close> on.
\<close>

definition fl :: "rat \<Rightarrow> jsnum" where
  "fl x =
     (if x = 0 then Fin 0
      else let a = \<bar>x\<bar>;
               e = max (ilog2 a) (- 1022);
               u = pow2 (e - 52);
               r = of_int (round_ties_even (a / u)) * u
           in if pow2 1024 \<le> r then (if 0 < x then PInf else NInf)
              else Fin (if 0 < x then r else - r))"

fun js_div :: "jsnum \<Rightarrow> jsnum \<Rightarrow> jsnum" where
  "js_div (Fin x) (Fin y) =
     (if y = 0 then (if x = 0 then NaN else if 0 < x then PInf else NInf) else fl (x / y))"
| "js_div (Fin x) PInf = Fin 0"
| "js_div (Fin x) NInf = Fin 0"
| "js_div PInf (Fin y) = (if 0 \<le> y then PInf else NInf)"
| "js_div NInf (Fin y) = (if 0 \<le> y then NInf else PInf)"
| "js_div PInf PInf = NaN"
| "js_div PInf NInf = NaN"
| "js_div NInf PInf = NaN"
| "js_div NInf NInf = NaN"
| "js_div NaN y = NaN"
| "js_div x NaN = NaN"

fun js_mul :: "jsnum \<Rightarrow> jsnum \<Rightarrow> jsnum" where
  "js_mul (Fin x) (Fin y) = fl (x * y)"
| "js_mul (Fin x) PInf = (if x = 0 then NaN else if 0 < x then PInf else NInf)"
| "js_mul (Fin x) NInf = (if x = 0 then NaN else if 0 < x then NInf else PInf)"
| "js_mul PInf (Fin y) = (if y = 0 then NaN else if 0 < y then PInf else NInf)"
| "js_mul NInf (Fin y) = (if y = 0 then NaN else if 0 < y then NInf else PInf)"
| "js_mul PInf PInf = PInf"
| "js_mul NInf NInf = PInf"
| "js_mul PInf NInf = NInf"
| "js_mul NInf PInf = NInf"
| "js_mul NaN y = NaN"
| "js_mul x NaN = NaN"

text \<open>\<open>Math.round\<close>: the nearest integer, a tie going up.\<close>

fun Math_round :: "jsnum \<Rightarrow> jsnum" where
  "Math_round (Fin x) = Fin (of_int \<lfloor>x + 1 / 2\<rfloor>)"
| "Math_round n = n"

definition num_of_nat :: "nat \<Rightarrow> jsnum" where
  "num_of_nat n = Fin (of_nat n)"

section \<open>The client session controller (\<open>src/app/page.tsx\<close>)\<close>

subsection \<open>State\<close>

datatype image_ext = Jpeg | Jpg | Png | Webp

text \<open>\<open>ImageData\<close>: the fields \<open>file\<close>, \<open>preview\<close>, \<open>width\<close>, \<open>height\<close>, \<open>id\<close> and
  \<open>ext\<close>.  The pixel sizes of a decoded image are natural numbers.\<close>

record ImageData =
  image_file :: jsfile
  preview :: string
  image_width :: nat
  image_height :: nat
  image_id :: string
  ext :: image_ext

record ResizeOptions =
  width :: jsnum
  height :: jsnum
  quality :: jsnum
  maintainAspectRatio :: bool

text \<open>The state of the component \<open>Home\<close> that the handlers read and set.\<close>

record session =
  originalImages :: "ImageData list"
  resizedImages :: "string \<rightharpoonup> string"
  isLoading :: bool
  error :: "string option"
  resizeOptions :: ResizeOptions

definition initial_session :: session where
  "initial_session =
     \<lparr>originalImages = [], resizedImages = Map.empty, isLoading = False, error = None,
      resizeOptions = \<lparr>width = Fin 800, height = Fin 600, quality = Fin 100,
                       maintainAspectRatio = True\<rparr>\<rparr>"

definition MAX_FILE_SIZE :: nat where
  "MAX_FILE_SIZE = 5 * 1024 * 1024"

definition MAX_IMAGES :: nat where
  "MAX_IMAGES = 10"

definition ALLOWED_TYPES :: "string list" where
  "ALLOWED_TYPES = [''image/jpeg'', ''image/jpg'', ''image/png'', ''image/webp'']"

subsection \<open>\<open>getExt\<close> and \<open>validateFile\<close>\<close>

text \<open>\<open>s.split(sep)\<close> for a one-character separator: never the empty array.\<close>

fun split_char :: "char \<Rightarrow> string \<Rightarrow> string list" where
  "split_char sep [] = [[]]"
| "split_char sep (c # cs) =
     (if c = sep then [] # split_char sep cs
      else (case split_char sep cs of seg # segs \<Rightarrow> (c # seg) # segs | [] \<Rightarrow> [[c]]))"

text \<open>\<open>pop()\<close> gives the last element, or \<open>undefined\<close> (here \<open>None\<close>) on an empty array.\<close>

definition pop :: "'a list \<Rightarrow> 'a option" where
  "pop xs = (case rev xs of [] \<Rightarrow> None | x # _ \<Rightarrow> Some x)"

definition lower_char :: "char \<Rightarrow> char" where
  "lower_char c =
     (let n = (of_char c :: nat)
      in if (65 \<le> n \<and> n \<le> 90) \<or> (192 \<le> n \<and> n \<le> 222 \<and> n \<noteq> 215) then char_of (n + 32) else c)"

definition toLowerCase :: "string \<Rightarrow> string" where
  "toLowerCase s = map lower_char s"

definition getExt :: "jsfile \<Rightarrow> image_ext" where
  "getExt f =
     (let e = map_option toLowerCase (pop (split_char (CHR ''.'') (name f)))
      in if e = Some ''jpeg'' then Jpeg
         else if e = Some ''jpg'' then Jpg
         else if e = Some ''png'' then Png
         else Webp)"

definition validateFile :: "jsfile \<Rightarrow> string option" where
  "validateFile f =
     (if size_bytes f > MAX_FILE_SIZE then Some ''File size must be less than 5MB''
      else if mime f \<notin> set ALLOWED_TYPES then
        Some ''Please upload a valid image file (JPEG, PNG, or WebP)''
      else None)"

subsection \<open>\<open>handleFileSelect\<close>\<close>

text \<open>A number in a template string, for the integers the message prints.\<close>

fun digits10 :: "nat \<Rightarrow> string" where
  "digits10 n = (if n < 10 then [char_of (48 + n)]
                 else digits10 (n div 10) @ [char_of (48 + n mod 10)])"

definition show_int :: "int \<Rightarrow> string" where
  "show_int i = (if i < 0 then CHR ''-'' # digits10 (nat (- i)) else digits10 (nat i))"

text \<open>
  A file that passed \<open>validateFile\<close> is handed to a \<open>FileReader\<close>; the callbacks that run
  when it has been read and decoded are a closure over the file and over
  \<open>originalImages.length\<close> as it was when \<open>handleFileSelect\<close> was called.
\<close>

record pending_load =
  captured_length :: nat
  pending_file :: jsfile

text \<open>The \<open>forEach\<close> over the files: \<open>return\<close> leaves the callback of one file, the loop
  goes on with the next.\<close>

fun forEach_file :: "nat \<Rightarrow> jsfile list \<Rightarrow> session \<Rightarrow> bool \<Rightarrow> session \<times> bool \<times> pending_load list" where
  "forEach_file n [] st hasError = (st, hasError, [])"
| "forEach_file n (f # fs) st hasError =
     (case validateFile f of
        Some validationError \<Rightarrow> forEach_file n fs (st\<lparr>error := Some validationError\<rparr>) True
      | None \<Rightarrow>
          (case forEach_file n fs st hasError of
             (st', hasError', ps) \<Rightarrow>
               (st', hasError', \<lparr>captured_length = n, pending_file = f\<rparr> # ps)))"

definition too_many_message :: "nat \<Rightarrow> string" where
  "too_many_message n =
     ''Maximum '' @ show_int (int MAX_IMAGES) @ '' images allowed. You can upload ''
       @ show_int (int MAX_IMAGES - int n) @ '' more images.''"

definition handleFileSelect :: "jsfile list \<Rightarrow> session \<Rightarrow> session \<times> pending_load list" where
  "handleFileSelect fileArray st =
     (let n = length (originalImages st)
      in if n + length fileArray > MAX_IMAGES then (st\<lparr>error := Some (too_many_message n)\<rparr>, [])
         else (case forEach_file n fileArray st False of
                 (st', hasError, ps) \<Rightarrow> ((if \<not> hasError then st'\<lparr>error := None\<rparr> else st'), ps)))"

text \<open>
  \<open>img.onload\<close>: the image has been decoded, with its data URL, its natural size and a
  fresh random identifier.  The new image is appended to the current list; the test for
  the first image reads the captured length.
\<close>

record load_event =
  loaded :: pending_load
  data_url :: string
  natural_width :: nat
  natural_height :: nat
  random_id :: string

definition img_onload :: "load_event \<Rightarrow> session \<Rightarrow> session" where
  "img_onload ev st =
     (let newImage = \<lparr>image_file = pending_file (loaded ev), preview = data_url ev,
                       image_width = natural_width ev, image_height = natural_height ev,
                       image_id = random_id ev, ext = getExt (pending_file (loaded ev))\<rparr>;
          st1 = st\<lparr>originalImages := originalImages st @ [newImage]\<rparr>
      in if captured_length (loaded ev) = 0
         then st1\<lparr>resizeOptions := (resizeOptions st1)\<lparr>width := num_of_nat (natural_width ev),
                                                        height := num_of_nat (natural_height ev)\<rparr>\<rparr>
         else st1)"

subsection \<open>\<open>handleDimensionChange\<close> and the other settings\<close>

datatype dimension = Width | Height

definition handleDimensionChange :: "dimension \<Rightarrow> jsnum \<Rightarrow> session \<Rightarrow> session" where
  "handleDimensionChange type v st =
     (case originalImages st of
        [] \<Rightarrow> st
      | firstImage # _ \<Rightarrow>
          (let aspectRatio = js_div (num_of_nat (image_width firstImage))
                                    (num_of_nat (image_height firstImage));
               prev = resizeOptions st
           in if maintainAspectRatio prev then
                (if type = Width
                 then st\<lparr>resizeOptions := prev\<lparr>width := v, height := Math_round (js_div v aspectRatio)\<rparr>\<rparr>
                 else st\<lparr>resizeOptions := prev\<lparr>height := v, width := Math_round (js_mul v aspectRatio)\<rparr>\<rparr>)
              else
                (if type = Width then st\<lparr>resizeOptions := prev\<lparr>width := v\<rparr>\<rparr>
                 else st\<lparr>resizeOptions := prev\<lparr>height := v\<rparr>\<rparr>)))"

definition setQuality :: "jsnum \<Rightarrow> session \<Rightarrow> session" where
  "setQuality q st = st\<lparr>resizeOptions := (resizeOptions st)\<lparr>quality := q\<rparr>\<rparr>"

definition setMaintainAspectRatio :: "bool \<Rightarrow> session \<Rightarrow> session" where
  "setMaintainAspectRatio b st = st\<lparr>resizeOptions := (resizeOptions st)\<lparr>maintainAspectRatio := b\<rparr>\<rparr>"

subsection \<open>\<open>handleResize\<close>\<close>

text \<open>
  The form sent for one image.  The numeric fields travel as the text that \<open>toString\<close>
  gives; the model keeps the numbers.
\<close>

record resize_request =
  req_image :: jsfile
  req_width :: jsnum
  req_height :: jsnum
  req_format :: image_ext
  req_quality :: jsnum

record fetch_response =
  ok :: bool
  blob :: "js_thrown + bytes"

text \<open>
  The world outside the controller: what the \<open>i\<close>-th \<open>fetch\<close> of a batch does with its
  request (it rejects, or it resolves to a response), and the URL that
  \<open>URL.createObjectURL\<close> makes for the \<open>i\<close>-th blob.
\<close>

record browser =
  fetch :: "nat \<Rightarrow> resize_request \<Rightarrow> js_thrown + fetch_response"
  createObjectURL :: "nat \<Rightarrow> bytes \<Rightarrow> string"

definition form_of :: "ResizeOptions \<Rightarrow> ImageData \<Rightarrow> resize_request" where
  "form_of opts img =
     \<lparr>req_image = image_file img, req_width = width opts, req_height = height opts,
      req_format = ext img, req_quality = quality opts\<rparr>"

text \<open>
  The \<open>for ... of\<close> loop inside the \<open>try\<close>: the result is the thrown value or the filled
  \<open>newResizedImages\<close>, together with the requests that were issued, in order.
\<close>

fun resize_loop :: "browser \<Rightarrow> ResizeOptions \<Rightarrow> nat \<Rightarrow> ImageData list \<Rightarrow> (string \<rightharpoonup> string)
    \<Rightarrow> (js_thrown + (string \<rightharpoonup> string)) \<times> resize_request list" where
  "resize_loop env opts i [] newResizedImages = (Inr newResizedImages, [])"
| "resize_loop env opts i (img # rest) newResizedImages =
     (let formData = form_of opts img
      in case fetch env i formData of
           Inl e \<Rightarrow> (Inl e, [formData])
         | Inr response \<Rightarrow>
             if \<not> ok response
             then (Inl (Error (''Failed to resize image: '' @ name (image_file img))), [formData])
             else (case blob response of
                     Inl e \<Rightarrow> (Inl e, [formData])
                   | Inr b \<Rightarrow>
                       (case resize_loop env opts (Suc i) rest
                               (newResizedImages(image_id img \<mapsto> createObjectURL env i b)) of
                          (r, sent) \<Rightarrow> (r, formData # sent))))"

text \<open>What \<open>handleResize\<close> sets before its first \<open>await\<close> ...\<close>

definition handleResize_start :: "session \<Rightarrow> session" where
  "handleResize_start st = st\<lparr>isLoading := True, error := None\<rparr>"

text \<open>... and what it sets once the loop has ended, on the state as it is by then.\<close>

definition handleResize_finish :: "js_thrown + (string \<rightharpoonup> string) \<Rightarrow> session \<Rightarrow> session" where
  "handleResize_finish r st =
     (case r of
        Inr newResizedImages \<Rightarrow> st\<lparr>resizedImages := newResizedImages, isLoading := False\<rparr>
      | Inl err \<Rightarrow>
          st\<lparr>error := Some (case err of Error message \<Rightarrow> message | NonError \<Rightarrow> ''An error occurred''),
             isLoading := False\<rparr>)"

text \<open>A batch that runs from the click to its end with no other handler in between.\<close>

definition handleResize :: "browser \<Rightarrow> session \<Rightarrow> session \<times> resize_request list" where
  "handleResize env st =
     (if originalImages st = [] then (st, [])
      else (case resize_loop env (resizeOptions st) 0 (originalImages st) Map.empty of
              (r, sent) \<Rightarrow> (handleResize_finish r (handleResize_start st), sent)))"

text \<open>
  \<open>handleResize\<close> is an \<open>async\<close> function: while it awaits its responses the page stays
  live and another handler may run.  The loop works on the images and settings of the
  render in which the button was clicked; the final setters act on the state as the other
  handler left it.
\<close>

definition handleResize_interleaved :: "browser \<Rightarrow> (session \<Rightarrow> session) \<Rightarrow> session \<Rightarrow> session" where
  "handleResize_interleaved env other st =
     (if originalImages st = [] then other st
      else handleResize_finish
             (fst (resize_loop env (resizeOptions st) 0 (originalImages st) Map.empty))
             (other (handleResize_start st)))"

subsection \<open>\<open>removeImage\<close> and \<open>clearAll\<close>\<close>

definition removeImage :: "string \<Rightarrow> session \<Rightarrow> session" where
  "removeImage imageId st =
     st\<lparr>originalImages := filter (\<lambda>img. image_id img \<noteq> imageId) (originalImages st),
        resizedImages := (resizedImages st)(imageId := None)\<rparr>"

definition clearAll :: "session \<Rightarrow> session" where
  "clearAll st = st\<lparr>originalImages := [], resizedImages := Map.empty, error := None, isLoading := False\<rparr>"

section \<open>Notions used to state the properties\<close>

text \<open>The codec runs recorded among the effects of a handler call.\<close>

definition codec_calls :: "effect list \<Rightarrow> sharp_pipeline list" where
  "codec_calls es = concat (map (\<lambda>e. case e of Codec p \<Rightarrow> [p] | ConsoleError \<Rightarrow> []) es)"

text \<open>A parsed number that is \<open>NaN\<close>, zero or negative.\<close>

definition not_positive :: "int option \<Rightarrow> bool" where
  "not_positive n = (case n of None \<Rightarrow> True | Some i \<Rightarrow> i \<le> 0)"

text \<open>The decimal representation of a positive integer: digits only, no leading zero.\<close>

definition decimal_positive :: "string \<Rightarrow> bool" where
  "decimal_positive s = (s \<noteq> [] \<and> list_all (is_digit 10) s \<and> hd s \<noteq> CHR ''0'')"

section \<open>Concrete inputs\<close>

definition sample_png :: jsfile where
  "sample_png = \<lparr>name = ''a.png'', mime = ''image/png'', content = [1, 2, 3]\<rparr>"

text \<open>A stand-in for the codec that hands its input back.\<close>

definition codec_echo :: "sharp_pipeline \<Rightarrow> js_thrown + bytes" where
  "codec_echo p = Inr (input p)"

definition form_bad :: form_data where
  "form_bad = [(''image'', FFile sample_png), (''width'', FString ''0''), (''height'', FString ''10''),
     (''format'', FString ''gif''), (''quality'', FString ''abc'')]"

definition form_zero_width :: form_data where
  "form_zero_width = [(''image'', FFile sample_png), (''width'', FString ''0''), (''height'', FString ''10''),
     (''format'', FString ''png''), (''quality'', FString ''80'')]"

definition form_prefix :: form_data where
  "form_prefix = [(''image'', FFile sample_png), (''width'', FString ''12abc''), (''height'', FString ''10''),
     (''format'', FString ''png''), (''quality'', FString ''80'')]"

definition form_ok :: form_data where
  "form_ok = [(''image'', FFile sample_png), (''width'', FString ''12''), (''height'', FString ''10''),
     (''format'', FString ''png''), (''quality'', FString ''80'')]"

section \<open>Notions used to state the controller's properties\<close>

text \<open>The last of the pieces of a name between dots; the whole name when it has no dot.\<close>

definition last_segment :: "string \<Rightarrow> string" where
  "last_segment s = rev (takeWhile (\<lambda>c. c \<noteq> CHR ''.'') (rev s))"

text \<open>The extension of a file name in the usual sense: what follows the last dot, and
  none when the name has no dot.\<close>

definition filename_extension :: "string \<Rightarrow> string option" where
  "filename_extension s = (if CHR ''.'' \<in> set s then Some (last_segment s) else None)"

text \<open>The \<open>i\<close>-th request of a batch gets an ok response whose body can be read.\<close>

definition request_succeeds :: "browser \<Rightarrow> nat \<Rightarrow> resize_request \<Rightarrow> bool" where
  "request_succeeds env i r =
     (case fetch env i r of
        Inl e \<Rightarrow> False
      | Inr response \<Rightarrow> ok response \<and> (case blob response of Inl e \<Rightarrow> False | Inr b \<Rightarrow> True))"

text \<open>The last validation message among the files of a batch, if any file is invalid.\<close>

definition last_validation_error :: "jsfile list \<Rightarrow> string option" where
  "last_validation_error fs = pop (List.map_filter validateFile fs)"

text \<open>The nearest integer of an exact quotient, a tie going up.\<close>

definition nearest_int :: "rat \<Rightarrow> int" where
  "nearest_int x = \<lfloor>x + 1 / 2\<rfloor>"

text \<open>Every key of the cached results is the identifier of a staged image.\<close>

definition cache_keys_staged :: "session \<Rightarrow> bool" where
  "cache_keys_staged st = (dom (resizedImages st) \<subseteq> image_id ` set (originalImages st))"

text \<open>
  The states that the handlers reach from the initial one when each handler, and each
  batch resize from its click to its end, runs without another handler in between.  The
  callbacks of the image loader are steps of their own.
\<close>

inductive reachable :: "session \<Rightarrow> bool" where
  reach_initial: "reachable initial_session"
| reach_select: "reachable st \<Longrightarrow> reachable (fst (handleFileSelect fileArray st))"
| reach_onload: "reachable st \<Longrightarrow> reachable (img_onload ev st)"
| reach_dimension: "reachable st \<Longrightarrow> reachable (handleDimensionChange type v st)"
| reach_quality: "reachable st \<Longrightarrow> reachable (setQuality q st)"
| reach_lock: "reachable st \<Longrightarrow> reachable (setMaintainAspectRatio b st)"
| reach_resize: "reachable st \<Longrightarrow> reachable (fst (handleResize env st))"
| reach_remove: "reachable st \<Longrightarrow> reachable (removeImage imageId st)"
| reach_clear: "reachable st \<Longrightarrow> reachable (clearAll st)"

section \<open>Concrete inputs for the controller\<close>

definition file_a :: jsfile where
  "file_a = \<lparr>name = ''a.png'', mime = ''image/png'', content = [1]\<rparr>"

definition file_b :: jsfile where
  "file_b = \<lparr>name = ''b.JPG'', mime = ''image/jpeg'', content = [2, 2]\<rparr>"

definition file_c :: jsfile where
  "file_c = \<lparr>name = ''c.gif.webp'', mime = ''image/webp'', content = [3, 3, 3]\<rparr>"

definition file_big :: jsfile where
  "file_big = \<lparr>name = ''big.png'', mime = ''image/png'', content = replicate (6 * 1024 * 1024) 0\<rparr>"

definition file_dotless :: jsfile where
  "file_dotless = \<lparr>name = ''png'', mime = ''image/png'', content = [7]\<rparr>"

definition load_a :: load_event where
  "load_a = \<lparr>loaded = \<lparr>captured_length = 0, pending_file = file_a\<rparr>, data_url = ''data:a'',
             natural_width = 100, natural_height = 50, random_id = ''ida''\<rparr>"

definition load_b :: load_event where
  "load_b = \<lparr>loaded = \<lparr>captured_length = 0, pending_file = file_b\<rparr>, data_url = ''data:b'',
             natural_width = 640, natural_height = 480, random_id = ''idb''\<rparr>"

definition load_c :: load_event where
  "load_c = \<lparr>loaded = \<lparr>captured_length = 0, pending_file = file_c\<rparr>, data_url = ''data:c'',
             natural_width = 6, natural_height = 17, random_id = ''idc''\<rparr>"

text \<open>One image staged; three images staged by one selection, loaded in order.\<close>

definition one_staged :: session where
  "one_staged = img_onload load_a (fst (handleFileSelect [file_a] initial_session))"

definition three_staged :: session where
  "three_staged =
     img_onload load_c (img_onload load_b (img_onload load_a
       (fst (handleFileSelect [file_a, file_b, file_c] initial_session))))"

text \<open>An image of 6 by 17 pixels staged alone.\<close>

definition narrow_staged :: session where
  "narrow_staged = img_onload load_c (fst (handleFileSelect [file_c] initial_session))"

text \<open>A server that answers every request; a server whose second answer is an error.\<close>

definition env_ok :: browser where
  "env_ok = \<lparr>fetch = (\<lambda>i r. Inr \<lparr>ok = True, blob = Inr (content (req_image r))\<rparr>),
            createObjectURL = (\<lambda>i b. ''blob:'' @ show_int (int i))\<rparr>"

definition env_second_fails :: browser where
  "env_second_fails =
     \<lparr>fetch = (\<lambda>i r. Inr \<lparr>ok = (i \<noteq> 1), blob = Inr (content (req_image r))\<rparr>),
      createObjectURL = (\<lambda>i b. ''blob:'' @ show_int (int i))\<rparr>"

text \<open>The file without a dot in its name staged alone; two images staged by one
  selection; ten images staged.\<close>

definition load_dotless :: load_event where
  "load_dotless = \<lparr>loaded = \<lparr>captured_length = 0, pending_file = file_dotless\<rparr>,
                   data_url = ''data:d'', natural_width = 8, natural_height = 8, random_id = ''idd''\<rparr>"

definition dotless_staged :: session where
  "dotless_staged = img_onload load_dotless (fst (handleFileSelect [file_dotless] initial_session))"

definition two_staged :: session where
  "two_staged =
     img_onload load_b (img_onload load_a (fst (handleFileSelect [file_a, file_b] initial_session)))"


section \<open>Properties of the resize endpoint\<close>

lemmas parse_defs = parseInt_def is_ws_def is_digit_def digit_value_def digits_value_def

lemmas check_defs = missing_image_def unsupported_type_def invalid_dimensions_def invalid_format_def
  invalid_quality_def field_int_def form_get_def to_string_def falsy_num_def num_le_def num_less_def
  num_greater_def SERVER_ALLOWED_TYPES_def SERVER_FORMATS_def

lemma no_failing_iff:
  "failing_checks formData = [] \<longleftrightarrow>
     \<not> missing_image formData \<and> \<not> unsupported_type formData \<and> \<not> invalid_dimensions formData
     \<and> \<not> invalid_format formData \<and> \<not> invalid_quality formData"
  by (simp add: failing_checks_def validation_checks_def)

text \<open>
  Claim C4.  When a multipart request fails at least one of the five checks (missing image,
  unsupported MIME type, invalid dimensions, invalid format, invalid quality, in this
  order), the answer is the 400 response with the message of the first check that fails;
  it is not the generic 500 response, and the codec is not run.
\<close>

theorem validation_first_failure:
  assumes "failing_checks formData \<noteq> []"
  shows "POST codec (Multipart formData) = (Json 400 (hd (failing_checks formData)), [])
       \<and> fst (POST codec (Multipart formData)) \<noteq> server_error
       \<and> codec_calls (snd (POST codec (Multipart formData))) = []"
  using assms
  by (auto simp: POST_def failing_checks_def validation_checks_def server_error_def codec_calls_def
      split: if_splits)

theorem validation_first_failure_witness:
  "failing_checks form_bad \<noteq> []
   \<and> POST codec_echo (Multipart form_bad) = (Json 400 ''Invalid dimensions provided'', [])"
  using validation_first_failure [of form_bad codec_echo]
  by (simp add: failing_checks_def validation_checks_def form_bad_def sample_png_def check_defs parse_defs)

text \<open>
  Claim C5, as the spec states it, fails: the width \<open>12abc\<close> is not the decimal
  representation of a positive integer, yet \<open>parseInt\<close> reads it as 12 and the request is
  processed.
\<close>

theorem numeric_prefix_accepted:
  "\<not> decimal_positive ''12abc''
   \<and> fst (POST codec_echo (Multipart form_prefix)) = Image [1, 2, 3] (response_headers ''png'')"
  by (simp add: decimal_positive_def POST_def process_def form_prefix_def sample_png_def check_defs
      parse_defs codec_echo_def)

text \<open>
  Claim C5, amended.  For a request whose image is present and of an allowed MIME type: when
  the width or the height field is missing, or \<open>parseInt\<close> of its text is \<open>NaN\<close>, zero or
  negative, the answer is the 400 response with the invalid-dimensions message and the codec
  is not run.  The texts \<open>0\<close>, \<open>-5\<close> and \<open>x\<close> are of that kind.
\<close>

theorem invalid_dimensions_rejected:
  assumes "\<not> missing_image formData" and "\<not> unsupported_type formData"
    and "form_get formData ''width'' = None \<or> form_get formData ''height'' = None
       \<or> not_positive (field_int formData ''width'') \<or> not_positive (field_int formData ''height'')"
  shows "POST codec (Multipart formData) = (Json 400 ''Invalid dimensions provided'', [])
       \<and> not_positive (parseInt ''0'') \<and> not_positive (parseInt ''-5'') \<and> not_positive (parseInt ''x'')"
proof -
  have nul: "parseInt ''null'' = None"
    by (simp add: parse_defs)
  have "invalid_dimensions formData"
    using assms(3)
    by (auto simp: invalid_dimensions_def not_positive_def falsy_num_def num_le_def Let_def
         field_int_def to_string_def nul split: option.splits)
  moreover have "not_positive (parseInt ''0'')" "not_positive (parseInt ''-5'')"
    "not_positive (parseInt ''x'')"
    by (simp_all add: not_positive_def parse_defs)
  ultimately show ?thesis
    using assms(1,2) by (simp add: POST_def)
qed

theorem invalid_dimensions_rejected_witness:
  "\<not> missing_image form_zero_width \<and> \<not> unsupported_type form_zero_width
   \<and> not_positive (field_int form_zero_width ''width'')
   \<and> POST codec_echo (Multipart form_zero_width) = (Json 400 ''Invalid dimensions provided'', [])"
proof -
  have h1: "\<not> missing_image form_zero_width" and h2: "\<not> unsupported_type form_zero_width"
    and h3: "not_positive (field_int form_zero_width ''width'')"
    by (simp_all add: form_zero_width_def sample_png_def check_defs parse_defs not_positive_def)
  from invalid_dimensions_rejected [OF h1 h2, of codec_echo] h1 h2 h3 show ?thesis
    by simp
qed

text \<open>
  Claim C6.  A request that passes all five checks carries one of the formats \<open>jpeg\<close>,
  \<open>jpg\<close>, \<open>png\<close>, \<open>webp\<close>; the \<open>switch\<close> takes one of its three named arms, and the one
  codec run of the handler uses the encoder of that arm, never the fallback of the
  \<open>default\<close> arm.
\<close>

theorem validated_format_never_default:
  assumes "failing_checks formData = []"
  shows "\<exists>format q p. form_get formData ''format'' = Some (FString format)
          \<and> format \<in> set SERVER_FORMATS
          \<and> switch_format format \<noteq> Case_default
          \<and> field_int formData ''quality'' = Some q
          \<and> codec_calls (snd (POST codec (Multipart formData))) = [p]
          \<and> encode p = encoder_of (switch_format format) q
          \<and> encode p \<noteq> encoder_of Case_default q"
proof -
  from assms have pass: "\<not> missing_image formData" "\<not> unsupported_type formData"
    "\<not> invalid_dimensions formData" "\<not> invalid_format formData" "\<not> invalid_quality formData"
    by (simp_all add: no_failing_iff)
  from pass(1,2) obtain f where f: "form_get formData ''image'' = Some (FFile f)"
    by (auto simp: missing_image_def unsupported_type_def split: option.splits form_value.splits)
  from pass(3) obtain w h where wh: "field_int formData ''width'' = Some w"
    "field_int formData ''height'' = Some h"
    by (auto simp: invalid_dimensions_def falsy_num_def Let_def split: option.splits)
  from pass(4) obtain fmt where fmt: "form_get formData ''format'' = Some (FString fmt)"
    "fmt \<in> set SERVER_FORMATS"
    by (auto simp: invalid_format_def split: option.splits form_value.splits)
  from pass(5) obtain q where q: "field_int formData ''quality'' = Some q"
    by (auto simp: invalid_quality_def falsy_num_def Let_def split: option.splits)
  from fmt(2) have arm: "switch_format fmt \<noteq> Case_default"
    by (auto simp: SERVER_FORMATS_def switch_format_def)
  define p where "p = \<lparr>input = content f, resize_width = w, resize_height = h,
                  fit = Fill, background = resize_background fmt,
                  encode = encoder_of (switch_format fmt) q\<rparr>"
  have calls: "codec_calls (snd (POST codec (Multipart formData))) = [p]"
    using pass f wh fmt q
    by (simp add: POST_def process_def codec_calls_def p_def Let_def split: sum.splits)
  have enc: "encode p = encoder_of (switch_format fmt) q"
    by (simp add: p_def)
  have "encoder_of (switch_format fmt) q \<noteq> encoder_of Case_default q"
    using arm by (cases "switch_format fmt") simp_all
  with fmt arm q calls enc show ?thesis
    by metis
qed

theorem validated_format_never_default_witness:
  "failing_checks form_ok = []
   \<and> (\<exists>format q p. form_get form_ok ''format'' = Some (FString format)
          \<and> format \<in> set SERVER_FORMATS
          \<and> switch_format format \<noteq> Case_default
          \<and> field_int form_ok ''quality'' = Some q
          \<and> codec_calls (snd (POST codec_echo (Multipart form_ok))) = [p]
          \<and> encode p = encoder_of (switch_format format) q
          \<and> encode p \<noteq> encoder_of Case_default q)"
proof -
  have h: "failing_checks form_ok = []"
    by (simp add: failing_checks_def validation_checks_def form_ok_def sample_png_def check_defs parse_defs)
  show ?thesis
    using h validated_format_never_default [OF h, of codec_echo] by simp
qed

section \<open>Properties of the session controller\<close>

lemmas file_defs = file_a_def file_b_def file_c_def file_big_def file_dotless_def

lemmas char_eval = char_of_def bit_Suc_0_iff

subsection \<open>\<open>split\<close>, \<open>pop\<close> and \<open>getExt\<close>\<close>

lemma split_char_nonempty: "split_char sep s \<noteq> []"
  by (induction s) (auto split: list.splits)

lemma split_char_no_sep: "sep \<notin> set s \<Longrightarrow> split_char sep s = [s]"
  by (induction s) auto

lemma split_char_two: "sep \<in> set s \<Longrightarrow> 2 \<le> length (split_char sep s)"
proof (induction s)
  case Nil
  then show ?case by simp
next
  case (Cons c cs)
  have "1 \<le> length (split_char sep cs)"
    using split_char_nonempty [of sep cs] by (cases "split_char sep cs") auto
  moreover have "sep \<in> set cs \<Longrightarrow> 2 \<le> length (split_char sep cs)"
    using Cons.IH by simp
  ultimately show ?case
    using Cons.prems by (auto split: list.splits)
qed

lemma last_split_char_Cons:
  "last (split_char sep (c # cs)) =
     (if sep \<in> set cs then last (split_char sep cs) else if c = sep then cs else c # cs)"
proof (cases "sep \<in> set cs")
  case True
  from split_char_two [OF True] obtain seg seg' segs where "split_char sep cs = seg # seg' # segs"
    by (cases "split_char sep cs"; cases "tl (split_char sep cs)") auto
  with True show ?thesis by simp
next
  case False
  then show ?thesis by (simp add: split_char_no_sep)
qed

lemma last_segment_Cons:
  "last_segment (c # cs) =
     (if CHR ''.'' \<in> set cs then last_segment cs else if c = CHR ''.'' then cs else c # cs)"
  by (auto simp: last_segment_def takeWhile_append1 takeWhile_append2 takeWhile_eq_all_conv
      takeWhile_append)

lemma last_split_char: "last (split_char (CHR ''.'') s) = last_segment s"
proof (induction s)
  case Nil
  show ?case by (simp add: last_segment_def)
next
  case (Cons c cs)
  then show ?case
    by (simp only: last_split_char_Cons last_segment_Cons)
qed

lemma pop_split_char: "pop (split_char (CHR ''.'') s) = Some (last_segment s)"
proof -
  have "pop xs = Some (last xs)" if "xs \<noteq> []" for xs :: "string list"
    using that by (cases xs rule: rev_cases) (simp_all add: pop_def)
  then show ?thesis
    by (simp add: split_char_nonempty last_split_char)
qed

lemma getExt_last_segment:
  "getExt f = (let e = toLowerCase (last_segment (name f))
               in if e = ''jpeg'' then Jpeg else if e = ''jpg'' then Jpg
                  else if e = ''png'' then Png else Webp)"
  by (simp add: getExt_def pop_split_char Let_def)

subsection \<open>Staging and the batch loop\<close>

lemma forEach_file_result:
  "forEach_file n fs st h =
     ((case pop (List.map_filter validateFile fs) of None \<Rightarrow> st | Some e \<Rightarrow> st\<lparr>error := Some e\<rparr>),
      (h \<or> List.map_filter validateFile fs \<noteq> []),
      map (\<lambda>f. \<lparr>captured_length = n, pending_file = f\<rparr>) (filter (\<lambda>f. validateFile f = None) fs))"
proof (induction fs arbitrary: st h)
  case Nil
  show ?case by (simp add: pop_def)
next
  case (Cons f fs)
  show ?case
  proof (cases "validateFile f")
    case None
    then show ?thesis by (simp add: Cons.IH)
  next
    case (Some e)
    then show ?thesis
      by (cases "rev (List.map_filter validateFile fs)")
        (simp_all add: Cons.IH pop_def)
  qed
qed

lemma handleFileSelect_accept:
  assumes "length (originalImages st) + length fileArray \<le> MAX_IMAGES"
  shows "handleFileSelect fileArray st =
     (st\<lparr>error := last_validation_error fileArray\<rparr>,
      map (\<lambda>f. \<lparr>captured_length = length (originalImages st), pending_file = f\<rparr>)
          (filter (\<lambda>f. validateFile f = None) fileArray))"
proof -
  have "pop (List.map_filter validateFile fileArray) = None \<longleftrightarrow> List.map_filter validateFile fileArray = []"
    by (cases "List.map_filter validateFile fileArray" rule: rev_cases) (simp_all add: pop_def)
  then show ?thesis
    using assms
    by (auto simp: handleFileSelect_def forEach_file_result last_validation_error_def Let_def
        split: option.splits)
qed

lemma handleFileSelect_reject:
  assumes "length (originalImages st) + length fileArray > MAX_IMAGES"
  shows "handleFileSelect fileArray st =
     (st\<lparr>error := Some (too_many_message (length (originalImages st)))\<rparr>, [])"
  using assms by (simp add: handleFileSelect_def Let_def)


lemma request_succeedsD:
  "request_succeeds env k r \<Longrightarrow> \<exists>response b. fetch env k r = Inr response \<and> ok response \<and> blob response = Inr b"
  by (auto simp: request_succeeds_def split: sum.splits)

text \<open>One turn of the loop: the request succeeds and the loop goes on with the next image,
  or it throws and the loop ends.\<close>

lemma resize_loop_step_ok:
  assumes "request_succeeds env k (form_of opts img)"
  shows "\<exists>acc'. resize_loop env opts k (img # imgs) acc =
     (fst (resize_loop env opts (Suc k) imgs acc'),
      form_of opts img # snd (resize_loop env opts (Suc k) imgs acc'))
     \<and> dom acc' = insert (image_id img) (dom acc)"
proof -
  from assms obtain response b where "fetch env k (form_of opts img) = Inr response" "ok response"
    "blob response = Inr b"
    using request_succeedsD by blast
  then have "resize_loop env opts k (img # imgs) acc =
     (fst (resize_loop env opts (Suc k) imgs (acc(image_id img \<mapsto> createObjectURL env k b))),
      form_of opts img
        # snd (resize_loop env opts (Suc k) imgs (acc(image_id img \<mapsto> createObjectURL env k b))))"
    by (simp add: Let_def split_beta)
  moreover have "dom (acc(image_id img \<mapsto> createObjectURL env k b)) = insert (image_id img) (dom acc)"
    by simp
  ultimately show ?thesis by blast
qed

lemma resize_loop_step_fail:
  assumes "\<not> request_succeeds env k (form_of opts img)"
  shows "snd (resize_loop env opts k (img # imgs) acc) = [form_of opts img]
       \<and> (\<exists>e. fst (resize_loop env opts k (img # imgs) acc) = Inl e)"
  using assms by (auto simp: request_succeeds_def Let_def split: sum.splits)

lemma resize_loop_sent_take:
  "\<exists>n\<le>length imgs. snd (resize_loop env opts k imgs acc) = map (form_of opts) (take n imgs)"
proof (induction imgs arbitrary: k acc)
  case Nil
  show ?case by simp
next
  case (Cons img imgs)
  show ?case
  proof (cases "request_succeeds env k (form_of opts img)")
    case True
    from resize_loop_step_ok [OF this, of imgs acc] obtain acc' where
      step: "resize_loop env opts k (img # imgs) acc =
        (fst (resize_loop env opts (Suc k) imgs acc'),
         form_of opts img # snd (resize_loop env opts (Suc k) imgs acc'))"
      by blast
    from Cons.IH [of "Suc k" acc']
    obtain n where "n \<le> length imgs"
      "snd (resize_loop env opts (Suc k) imgs acc') = map (form_of opts) (take n imgs)"
      by blast
    with step have "Suc n \<le> length (img # imgs)"
      "snd (resize_loop env opts k (img # imgs) acc) = map (form_of opts) (take (Suc n) (img # imgs))"
      by (simp_all del: resize_loop.simps)
    then show ?thesis by blast
  next
    case False
    from resize_loop_step_fail [OF this, of imgs acc]
    have "Suc 0 \<le> length (img # imgs)"
      "snd (resize_loop env opts k (img # imgs) acc) = map (form_of opts) (take (Suc 0) (img # imgs))"
      by (simp_all del: resize_loop.simps)
    then show ?thesis by blast
  qed
qed

lemma resize_loop_sent_nth:
  assumes "i < length (snd (resize_loop env opts k imgs acc))"
  shows "i < length imgs \<and> snd (resize_loop env opts k imgs acc) ! i = form_of opts (imgs ! i)"
proof -
  from resize_loop_sent_take [of imgs env opts k acc]
  obtain n where n: "n \<le> length imgs"
    "snd (resize_loop env opts k imgs acc) = map (form_of opts) (take n imgs)"
    by blast
  with assms have "i < n" by simp
  with n show ?thesis by simp
qed

lemma succeeds_shift:
  assumes "\<forall>j<Suc n. request_succeeds env (k + j) (form_of opts ((x # xs) ! j))"
  shows "request_succeeds env k (form_of opts x)"
    and "\<forall>j<n. request_succeeds env (Suc k + j) (form_of opts (xs ! j))"
proof -
  from assms have "request_succeeds env (k + 0) (form_of opts ((x # xs) ! 0))"
    by blast
  then show "request_succeeds env k (form_of opts x)"
    by simp
  show "\<forall>j<n. request_succeeds env (Suc k + j) (form_of opts (xs ! j))"
  proof (intro allI impI)
    fix j assume "j < n"
    then have "Suc j < Suc n" by simp
    with assms have "request_succeeds env (k + Suc j) (form_of opts ((x # xs) ! Suc j))"
      by blast
    then show "request_succeeds env (Suc k + j) (form_of opts (xs ! j))"
      by simp
  qed
qed

lemma resize_loop_reaches:
  assumes "i < length imgs"
    and "\<forall>j<i. request_succeeds env (k + j) (form_of opts (imgs ! j))"
  shows "i < length (snd (resize_loop env opts k imgs acc))"
  using assms
proof (induction imgs arbitrary: i k acc)
  case Nil
  then show ?case by simp
next
  case (Cons img imgs)
  show ?case
  proof (cases i)
    case 0
    show ?thesis
    proof (cases "request_succeeds env k (form_of opts img)")
      case True
      from resize_loop_step_ok [OF this, of imgs acc] 0 show ?thesis
        by (auto simp del: resize_loop.simps)
    next
      case False
      from resize_loop_step_fail [OF this, of imgs acc] 0 show ?thesis
        by (simp del: resize_loop.simps)
    qed
  next
    case (Suc i')
    from Cons.prems(2) Suc
    have first: "request_succeeds env k (form_of opts img)"
      and rest: "\<forall>j<i'. request_succeeds env (Suc k + j) (form_of opts (imgs ! j))"
      using succeeds_shift [of i' env k opts img imgs] by simp_all
    from resize_loop_step_ok [OF first, of imgs acc] obtain acc' where
      step: "resize_loop env opts k (img # imgs) acc =
        (fst (resize_loop env opts (Suc k) imgs acc'),
         form_of opts img # snd (resize_loop env opts (Suc k) imgs acc'))"
      by blast
    from Cons.prems(1) Suc have "i' < length imgs"
      by simp
    from Cons.IH [OF this rest, of acc'] step Suc
    show ?thesis
      by (simp del: resize_loop.simps)
  qed
qed

lemma resize_loop_prefix:
  assumes "\<forall>j<length pre. request_succeeds env (k + j) (form_of opts (pre ! j))"
  shows "\<exists>acc'. resize_loop env opts k (pre @ rest) acc =
     (fst (resize_loop env opts (k + length pre) rest acc'),
      map (form_of opts) pre @ snd (resize_loop env opts (k + length pre) rest acc'))"
  using assms
proof (induction pre arbitrary: k acc)
  case Nil
  show ?case by (intro exI [of _ acc]) simp
next
  case (Cons p pre)
  from Cons.prems
  have first: "request_succeeds env k (form_of opts p)"
    and others: "\<forall>j<length pre. request_succeeds env (Suc k + j) (form_of opts (pre ! j))"
    using succeeds_shift [of "length pre" env k opts p pre] by simp_all
  from resize_loop_step_ok [OF first, of "pre @ rest" acc] obtain acc1 where
    step: "resize_loop env opts k (p # pre @ rest) acc =
        (fst (resize_loop env opts (Suc k) (pre @ rest) acc1),
         form_of opts p # snd (resize_loop env opts (Suc k) (pre @ rest) acc1))"
    by blast
  from Cons.IH [OF others, of acc1] obtain acc' where
    "resize_loop env opts (Suc k) (pre @ rest) acc1 =
       (fst (resize_loop env opts (Suc k + length pre) rest acc'),
        map (form_of opts) pre @ snd (resize_loop env opts (Suc k + length pre) rest acc'))"
    by blast
  with step have "resize_loop env opts k ((p # pre) @ rest) acc =
     (fst (resize_loop env opts (k + length (p # pre)) rest acc'),
      map (form_of opts) (p # pre) @ snd (resize_loop env opts (k + length (p # pre)) rest acc'))"
    by (simp del: resize_loop.simps)
  then show ?case by blast
qed

lemma resize_loop_thrown:
  "fetch env k (form_of opts img) = Inr response \<Longrightarrow> \<not> ok response \<Longrightarrow>
     fst (resize_loop env opts k (img # imgs) acc)
       = Inl (Error (''Failed to resize image: '' @ name (image_file img)))"
  "fetch env k (form_of opts img) = Inl e \<Longrightarrow> fst (resize_loop env opts k (img # imgs) acc) = Inl e"
  "fetch env k (form_of opts img) = Inr response \<Longrightarrow> ok response \<Longrightarrow> blob response = Inl e \<Longrightarrow>
     fst (resize_loop env opts k (img # imgs) acc) = Inl e"
  by (simp_all add: Let_def)

lemma resize_loop_dom:
  "fst (resize_loop env opts k imgs acc) = Inr m \<Longrightarrow> dom m = dom acc \<union> image_id ` set imgs"
proof (induction imgs arbitrary: k acc)
  case Nil
  then show ?case by simp
next
  case (Cons img imgs)
  show ?case
  proof (cases "request_succeeds env k (form_of opts img)")
    case True
    from resize_loop_step_ok [OF this, of imgs acc] obtain acc' where
      step: "resize_loop env opts k (img # imgs) acc =
        (fst (resize_loop env opts (Suc k) imgs acc'),
         form_of opts img # snd (resize_loop env opts (Suc k) imgs acc'))"
      and dom: "dom acc' = insert (image_id img) (dom acc)"
      by blast
    from step Cons.prems have "fst (resize_loop env opts (Suc k) imgs acc') = Inr m"
      by (simp del: resize_loop.simps)
    from Cons.IH [OF this] dom show ?thesis
      by auto
  next
    case False
    from resize_loop_step_fail [OF this, of imgs acc] Cons.prems show ?thesis
      by (auto simp del: resize_loop.simps)
  qed
qed

subsection \<open>Staging files\<close>

lemmas stage_defs = handleFileSelect_def img_onload_def initial_session_def validateFile_def
  size_bytes_def MAX_FILE_SIZE_def MAX_IMAGES_def ALLOWED_TYPES_def num_of_nat_def Let_def

lemmas ext_eval = getExt_last_segment last_segment_def toLowerCase_def lower_char_def char_eval




lemma img_onload_options:
  "resizeOptions (img_onload ev st) =
     (if captured_length (loaded ev) = 0
      then (resizeOptions st)\<lparr>width := num_of_nat (natural_width ev), height := num_of_nat (natural_height ev)\<rparr>
      else resizeOptions st)"
  by (simp add: img_onload_def Let_def)

text \<open>
  Claim C8 at a failing input.  Two valid files are selected together in an empty session.
  Both callbacks hold the length 0 that the list had at the selection, so the second image
  to load overwrites the width and height that the first one seeded: the settings end as
  640 by 480, the size of the second image, and not as 100 by 50.
\<close>

theorem second_image_of_batch_reseeds:
  "snd (handleFileSelect [file_a, file_b] initial_session) = [loaded load_a, loaded load_b]
   \<and> map image_id (originalImages two_staged) = [''ida'', ''idb'']
   \<and> width (resizeOptions (img_onload load_a (fst (handleFileSelect [file_a, file_b] initial_session)))) = Fin 100
   \<and> height (resizeOptions (img_onload load_a (fst (handleFileSelect [file_a, file_b] initial_session)))) = Fin 50
   \<and> width (resizeOptions two_staged) = Fin 640
   \<and> height (resizeOptions two_staged) = Fin 480"
  by (simp add: two_staged_def stage_defs file_defs load_a_def load_b_def)

text \<open>
  Claim C10, as the spec states it, fails for a name without a dot: the file named \<open>png\<close>
  has no extension at all, yet it is recorded as \<open>png\<close> and the batch sends \<open>format=png\<close>.
\<close>

theorem dotless_name_keeps_format:
  "filename_extension (name file_dotless) = None
   \<and> validateFile file_dotless = None
   \<and> getExt file_dotless = Png
   \<and> map req_format (snd (handleResize env_ok dotless_staged)) = [Png]"
  by (simp add: filename_extension_def ext_eval file_defs stage_defs dotless_staged_def load_dotless_def
      handleResize_def env_ok_def form_of_def)

subsection \<open>The batch resize\<close>

lemma handleResize_sent_nth:
  assumes "i < length (snd (handleResize env s))"
  shows "i < length (originalImages s)
       \<and> snd (handleResize env s) ! i = form_of (resizeOptions s) (originalImages s ! i)"
proof (cases "originalImages s = []")
  case True
  with assms show ?thesis by (simp add: handleResize_def)
next
  case False
  with assms have "i < length (snd (resize_loop env (resizeOptions s) 0 (originalImages s) Map.empty))"
    by (simp add: handleResize_def split_beta)
  from resize_loop_sent_nth [OF this] False show ?thesis
    by (simp add: handleResize_def split_beta)
qed

lemma handleResize_reaches:
  assumes "i < length (originalImages s)"
    and "\<forall>j<i. request_succeeds env j (form_of (resizeOptions s) (originalImages s ! j))"
  shows "i < length (snd (handleResize env s))"
proof -
  from assms(1) have ne: "originalImages s \<noteq> []" by auto
  from assms(2) have "\<forall>j<i. request_succeeds env (0 + j) (form_of (resizeOptions s) (originalImages s ! j))"
    by simp
  from resize_loop_reaches [OF assms(1) this, of Map.empty] ne show ?thesis
    by (simp add: handleResize_def split_beta)
qed

text \<open>
  Claim C10, amended.  When the last dot-separated piece of the file name (the whole name,
  when there is no dot), in lower case, is none of \<open>jpeg\<close>, \<open>jpg\<close>, \<open>png\<close>, the file is
  recorded with the extension \<open>webp\<close>: \<open>getExt\<close> returns it, the image staged from the
  file carries it, and in a batch resize every request issued for that image has
  \<open>format=webp\<close>; the request is issued whenever all earlier requests of the batch succeed.
\<close>

theorem other_extension_recorded_as_webp:
  assumes "toLowerCase (last_segment (name f)) \<notin> {''jpeg'', ''jpg'', ''png''}"
  shows "getExt f = Webp
    \<and> (pending_file (loaded ev) = f \<longrightarrow>
         image_file (last (originalImages (img_onload ev st))) = f
         \<and> ext (last (originalImages (img_onload ev st))) = Webp)
    \<and> (\<forall>i<length (originalImages s).
         image_file (originalImages s ! i) = f \<and> ext (originalImages s ! i) = getExt f \<longrightarrow>
           (i < length (snd (handleResize env s)) \<longrightarrow>
              req_image (snd (handleResize env s) ! i) = f
              \<and> req_format (snd (handleResize env s) ! i) = Webp)
           \<and> ((\<forall>j<i. request_succeeds env j (form_of (resizeOptions s) (originalImages s ! j)))
                \<longrightarrow> i < length (snd (handleResize env s))))"
proof -
  from assms have w: "getExt f = Webp"
    by (simp add: getExt_last_segment Let_def)
  have staged: "image_file (last (originalImages (img_onload ev st))) = pending_file (loaded ev)
     \<and> ext (last (originalImages (img_onload ev st))) = getExt (pending_file (loaded ev))"
    by (simp add: img_onload_def Let_def)
  have batch: "(i < length (snd (handleResize env s)) \<longrightarrow>
              req_image (snd (handleResize env s) ! i) = f
              \<and> req_format (snd (handleResize env s) ! i) = Webp)
           \<and> ((\<forall>j<i. request_succeeds env j (form_of (resizeOptions s) (originalImages s ! j)))
                \<longrightarrow> i < length (snd (handleResize env s)))"
    if "i < length (originalImages s)" "image_file (originalImages s ! i) = f"
      "ext (originalImages s ! i) = getExt f" for i
    using that w handleResize_sent_nth [of i env s] handleResize_reaches [of i s env]
    by (auto simp: form_of_def)
  from w staged batch show ?thesis
    by auto
qed

theorem other_extension_recorded_as_webp_witness:
  "toLowerCase (last_segment (name file_c)) \<notin> {''jpeg'', ''jpg'', ''png''}
   \<and> getExt file_c = Webp
   \<and> req_format (snd (handleResize env_ok three_staged) ! 2) = Webp"
proof -
  have h: "toLowerCase (last_segment (name file_c)) \<notin> {''jpeg'', ''jpg'', ''png''}"
    by (simp add: file_defs last_segment_def toLowerCase_def lower_char_def char_eval)
  have imgs: "length (originalImages three_staged) = 3"
    "image_file (originalImages three_staged ! 2) = file_c"
    "ext (originalImages three_staged ! 2) = getExt file_c"
    by (simp_all add: three_staged_def stage_defs file_defs load_a_def load_b_def load_c_def)
  have ok: "\<forall>j<2. request_succeeds env_ok j (form_of (resizeOptions three_staged) (originalImages three_staged ! j))"
    by (simp add: request_succeeds_def env_ok_def)
  from other_extension_recorded_as_webp [OF h, of load_c initial_session three_staged env_ok] imgs ok
  have "getExt file_c = Webp" "req_format (snd (handleResize env_ok three_staged) ! 2) = Webp"
    by auto
  with h show ?thesis by simp
qed

text \<open>
  Claim C1, as the spec states it, fails on the cached results: of three staged images the
  second request gets an error response; the cache, empty before, is empty afterwards, and
  does not hold the result of the first image.
\<close>

theorem failed_batch_caches_nothing:
  "map image_id (originalImages three_staged) = [''ida'', ''idb'', ''idc'']
   \<and> resizedImages three_staged = Map.empty
   \<and> resizedImages (fst (handleResize env_second_fails three_staged)) = Map.empty
   \<and> error (fst (handleResize env_second_fails three_staged)) = Some ''Failed to resize image: b.JPG''
   \<and> map req_image (snd (handleResize env_second_fails three_staged)) = [file_a, file_b]"
  by (simp add: three_staged_def stage_defs file_defs load_a_def load_b_def load_c_def
      handleResize_def handleResize_start_def handleResize_finish_def env_second_fails_def form_of_def)

text \<open>
  Claim C1, amended.  When the requests of the images before the \<open>k\<close>-th succeed and the
  \<open>k\<close>-th fails (its response is not ok, or \<open>fetch\<close> rejects, or the body cannot be
  read), the batch leaves the cached results exactly as they were before it (the results of
  the earlier images are dropped), has issued the requests of the first \<open>k\<close> images and no
  other, and sets the error to one message: the message that names the file of the
  \<open>k\<close>-th image when the response is not ok, the message of the thrown error when
  \<open>fetch\<close> rejects with one.
\<close>

theorem batch_failure_keeps_cache:
  assumes "originalImages st = pre @ img # post"
    and "\<forall>j<length pre. request_succeeds env j (form_of (resizeOptions st) (pre ! j))"
    and "\<not> request_succeeds env (length pre) (form_of (resizeOptions st) img)"
  shows "resizedImages (fst (handleResize env st)) = resizedImages st
       \<and> snd (handleResize env st) = map (form_of (resizeOptions st)) (pre @ [img])
       \<and> (\<exists>message. fst (handleResize env st) = st\<lparr>isLoading := False, error := Some message\<rparr>
            \<and> (\<forall>response. fetch env (length pre) (form_of (resizeOptions st) img) = Inr response
                  \<and> \<not> ok response
                  \<longrightarrow> message = ''Failed to resize image: '' @ name (image_file img))
            \<and> (\<forall>m. fetch env (length pre) (form_of (resizeOptions st) img) = Inl (Error m)
                  \<longrightarrow> message = m))"
proof -
  let ?opts = "resizeOptions st"
  let ?k = "length pre"
  from assms(2) have "\<forall>j<length pre. request_succeeds env (0 + j) (form_of ?opts (pre ! j))"
    by simp
  from resize_loop_prefix [OF this, of "img # post" Map.empty] obtain acc' where
    run: "resize_loop env ?opts 0 (pre @ img # post) Map.empty =
       (fst (resize_loop env ?opts ?k (img # post) acc'),
        map (form_of ?opts) pre @ snd (resize_loop env ?opts ?k (img # post) acc'))"
    by auto
  from resize_loop_step_fail [OF assms(3), of post acc'] obtain e where
    sent: "snd (resize_loop env ?opts ?k (img # post) acc') = [form_of ?opts img]"
    and thrown: "fst (resize_loop env ?opts ?k (img # post) acc') = Inl e"
    by blast
  define message where "message = (case e of Error m \<Rightarrow> m | NonError \<Rightarrow> ''An error occurred'')"
  from assms(1) run sent thrown
  have res: "handleResize env st =
     (st\<lparr>isLoading := False, error := Some message\<rparr>, map (form_of ?opts) (pre @ [img]))"
    by (simp add: handleResize_def handleResize_start_def handleResize_finish_def message_def
        del: resize_loop.simps)
  have named: "message = ''Failed to resize image: '' @ name (image_file img)"
    if "fetch env ?k (form_of ?opts img) = Inr response" "\<not> ok response" for response
    using resize_loop_thrown(1) [OF that, of post acc'] thrown by (auto simp: message_def)
  have own: "message = m" if "fetch env ?k (form_of ?opts img) = Inl (Error m)" for m
    using resize_loop_thrown(2) [OF that, of post acc'] thrown by (auto simp: message_def)
  from res named own show ?thesis
    by auto
qed

theorem batch_failure_keeps_cache_witness:
  "originalImages three_staged
     = [hd (originalImages three_staged)] @ (originalImages three_staged ! 1) # [originalImages three_staged ! 2]
   \<and> request_succeeds env_second_fails 0 (form_of (resizeOptions three_staged) (hd (originalImages three_staged)))
   \<and> \<not> request_succeeds env_second_fails 1 (form_of (resizeOptions three_staged) (originalImages three_staged ! 1))
   \<and> resizedImages (fst (handleResize env_second_fails three_staged)) = resizedImages three_staged
   \<and> length (snd (handleResize env_second_fails three_staged)) = 2"
proof -
  have h1: "originalImages three_staged
     = [hd (originalImages three_staged)] @ (originalImages three_staged ! 1) # [originalImages three_staged ! 2]"
    by (simp add: three_staged_def stage_defs file_defs load_a_def load_b_def load_c_def)
  have h2: "\<forall>j<length [hd (originalImages three_staged)].
     request_succeeds env_second_fails j
       (form_of (resizeOptions three_staged) ([hd (originalImages three_staged)] ! j))"
    by (simp add: request_succeeds_def env_second_fails_def)
  have h3: "\<not> request_succeeds env_second_fails (length [hd (originalImages three_staged)])
      (form_of (resizeOptions three_staged) (originalImages three_staged ! 1))"
    by (simp add: request_succeeds_def env_second_fails_def)
  from batch_failure_keeps_cache [OF h1 h2 h3] h1 h2 h3 show ?thesis
    by simp
qed

subsection \<open>Doubles\<close>

text \<open>The integer logarithm is the binary exponent: \<open>2\<^sup>e \<le> x < 2\<^sup>e\<^sup>+\<^sup>1\<close> for
  \<open>e = ilog2 x\<close>, and only for it.  A rounding is then settled by exhibiting the exponent
  and the significand.\<close>

lemma pow2_powi: "pow2 e = 2 powi e"
  by (simp add: pow2_def power_int_def inverse_eq_divide power_one_over)

lemma pow2_pos: "0 < pow2 e"
  by (simp add: pow2_powi)

lemma pow2_add: "pow2 (a + b) = pow2 a * pow2 b"
  by (simp add: pow2_powi power_int_add)

lemma pow2_less_iff: "pow2 a < pow2 b \<longleftrightarrow> a < b"
proof
  assume "a < b" then show "pow2 a < pow2 b"
    by (simp add: pow2_powi power_int_strict_increasing)
next
  assume l: "pow2 a < pow2 b"
  show "a < b"
  proof (rule ccontr)
    assume "\<not> a < b"
    then have "b \<le> a" by simp
    then have "pow2 b \<le> pow2 a"
      by (simp add: pow2_powi power_int_increasing)
    with l show False by simp
  qed
qed

lemma pow2_of_bitlen:
  assumes "0 < a"
  shows "pow2 (bitlen a - 1) \<le> of_int a" and "of_int a < pow2 (bitlen a)"
proof -
  from assms have l: "1 \<le> bitlen a"
    using bitlen_eq_zero_iff [of a] bitlen_nonneg [of a] by linarith
  from bitlen_bounds [OF assms] have "2 ^ nat (bitlen a - 1) \<le> a" "a < 2 ^ nat (bitlen a)"
    by simp_all
  then have "(of_int (2 ^ nat (bitlen a - 1)) :: rat) \<le> of_int a" "(of_int a :: rat) < of_int (2 ^ nat (bitlen a))"
    by (simp_all only: of_int_le_iff of_int_less_iff)
  with l show "pow2 (bitlen a - 1) \<le> of_int a" and "of_int a < pow2 (bitlen a)"
    by (simp_all add: pow2_def)
qed

lemma ilog2_bounds:
  assumes "0 < x"
  shows "pow2 (ilog2 x) \<le> x \<and> x < pow2 (ilog2 x + 1)"
proof -
  obtain a b where q: "quotient_of x = (a, b)"
    by fastforce
  then have b: "0 < b" and x: "x = of_int a / of_int b"
    by (simp_all add: quotient_of_denom_pos quotient_of_div)
  with assms have a: "0 < a"
    by (simp add: zero_less_divide_iff)
  define d where "d = bitlen a - bitlen b"
  have bp: "(0::rat) < of_int b" using b by simp
  have "x < pow2 (bitlen a) / pow2 (bitlen b - 1)"
    unfolding x using pow2_of_bitlen [OF a] pow2_of_bitlen [OF b] pow2_pos [of "bitlen b - 1"] a
    by (intro frac_less) simp_all
  also have "pow2 (bitlen a) = pow2 (d + 1) * pow2 (bitlen b - 1)"
    by (simp add: pow2_add [symmetric] d_def)
  finally have up: "x < pow2 (d + 1)"
    using pow2_pos [of "bitlen b - 1"] by simp
  have "pow2 (bitlen a - 1) / pow2 (bitlen b) < x"
    unfolding x using pow2_of_bitlen [OF a] pow2_of_bitlen [OF b] pow2_pos [of "bitlen a - 1"] b
    by (intro frac_less2) simp_all
  moreover have "pow2 (bitlen a - 1) = pow2 (d - 1) * pow2 (bitlen b)"
    by (simp add: pow2_add [symmetric] d_def)
  ultimately have low: "pow2 (d - 1) < x"
    using pow2_pos [of "bitlen b"] by simp
  have i: "ilog2 x = (if pow2 d \<le> x then d else d - 1)"
    by (simp add: ilog2_def q d_def Let_def)
  show ?thesis
  proof (cases "pow2 d \<le> x")
    case True
    with i up show ?thesis by simp
  next
    case False
    with i low show ?thesis by simp
  qed
qed

lemma ilog2_unique:
  assumes "pow2 e \<le> x" and "x < pow2 (e + 1)"
  shows "ilog2 x = e"
proof -
  from assms(1) pow2_pos [of e] have "0 < x" by simp
  from ilog2_bounds [OF this] have "pow2 (ilog2 x) \<le> x" "x < pow2 (ilog2 x + 1)"
    by simp_all
  with assms have "pow2 e < pow2 (ilog2 x + 1)" "pow2 (ilog2 x) < pow2 (e + 1)"
    by simp_all
  then show ?thesis
    by (simp add: pow2_less_iff)
qed

lemma round_ties_even_eqI:
  assumes "of_int m - 1 / 2 < x" and "x < of_int m + 1 / 2"
  shows "round_ties_even x = m"
proof -
  have "\<lfloor>x\<rfloor> = m \<or> \<lfloor>x\<rfloor> = m - 1"
    using assms by linarith
  then show ?thesis
  proof
    assume f: "\<lfloor>x\<rfloor> = m"
    with assms have "x - of_int \<lfloor>x\<rfloor> < 1 / 2" by simp
    with f show ?thesis by (simp add: round_ties_even_def Let_def)
  next
    assume f: "\<lfloor>x\<rfloor> = m - 1"
    with assms have "1 / 2 < x - of_int \<lfloor>x\<rfloor>" by simp
    with f show ?thesis by (simp add: round_ties_even_def Let_def)
  qed
qed

lemma fl_eqI:
  assumes "pow2 e \<le> x" and "x < pow2 (e + 1)" and "- 1022 \<le> e"
    and "of_int m - 1 / 2 < x / pow2 (e - 52)" and "x / pow2 (e - 52) < of_int m + 1 / 2"
    and "of_int m * pow2 (e - 52) < pow2 1024"
  shows "fl x = Fin (of_int m * pow2 (e - 52))"
proof -
  from assms(1) pow2_pos [of e] have pos: "0 < x" by simp
  from assms(1,2) have il: "ilog2 x = e" by (rule ilog2_unique)
  from assms(3) have mx: "max e (- 1022) = e" by simp
  from assms(4,5) have r: "round_ties_even (x / pow2 (e - 52)) = m"
    by (rule round_ties_even_eqI)
  from pos have ab: "\<bar>x\<bar> = x" "x \<noteq> 0" by simp_all
  from assms(6) have lt: "\<not> pow2 1024 \<le> of_int m * pow2 (e - 52)" by simp
  show ?thesis
    by (simp only: fl_def Let_def ab il mx r lt pos if_False if_True)
qed

subsection \<open>The cached results and the staged images\<close>

lemma handleFileSelect_keeps:
  "originalImages (fst (handleFileSelect fileArray st)) = originalImages st
   \<and> resizedImages (fst (handleFileSelect fileArray st)) = resizedImages st"
proof (cases "length (originalImages st) + length fileArray > MAX_IMAGES")
  case True
  from handleFileSelect_reject [OF this] show ?thesis by simp
next
  case False
  then have "length (originalImages st) + length fileArray \<le> MAX_IMAGES" by simp
  from handleFileSelect_accept [OF this] show ?thesis by simp
qed

lemma cache_select: "cache_keys_staged st \<Longrightarrow> cache_keys_staged (fst (handleFileSelect fileArray st))"
  by (simp add: cache_keys_staged_def handleFileSelect_keeps)

lemma cache_onload: "cache_keys_staged st \<Longrightarrow> cache_keys_staged (img_onload ev st)"
  by (auto simp: cache_keys_staged_def img_onload_def Let_def)

lemma cache_dimension: "cache_keys_staged st \<Longrightarrow> cache_keys_staged (handleDimensionChange type v st)"
  by (auto simp: cache_keys_staged_def handleDimensionChange_def Let_def split: list.splits)

lemma cache_resize: "cache_keys_staged st \<Longrightarrow> cache_keys_staged (fst (handleResize env st))"
proof (cases "originalImages st = []")
  case True
  then show "cache_keys_staged st \<Longrightarrow> ?thesis" by (simp add: handleResize_def)
next
  case False
  assume inv: "cache_keys_staged st"
  show ?thesis
  proof (cases "fst (resize_loop env (resizeOptions st) 0 (originalImages st) Map.empty)")
    case (Inl e)
    with False inv show ?thesis
      by (simp add: handleResize_def split_beta handleResize_finish_def handleResize_start_def
          cache_keys_staged_def)
  next
    case (Inr m)
    from resize_loop_dom [OF Inr] have "dom m = image_id ` set (originalImages st)" by simp
    with False Inr show ?thesis
      by (simp add: handleResize_def split_beta handleResize_finish_def handleResize_start_def
          cache_keys_staged_def)
  qed
qed

lemma cache_remove: "cache_keys_staged st \<Longrightarrow> cache_keys_staged (removeImage imageId st)"
  by (auto simp: cache_keys_staged_def removeImage_def)

lemma cache_clear: "cache_keys_staged (clearAll st)"
  by (simp add: cache_keys_staged_def clearAll_def)

text \<open>
  Each handler on its own keeps the containment, so it holds in every state reached by
  handlers that run one after the other.
\<close>

lemma cache_keys_staged_sequential:
  assumes "reachable st"
  shows "cache_keys_staged st"
  using assms
proof (induction rule: reachable.induct)
  case reach_initial
  show ?case by (simp add: cache_keys_staged_def initial_session_def)
next
  case (reach_select st fileArray)
  then show ?case by (simp add: cache_select)
next
  case (reach_onload st ev)
  then show ?case by (simp add: cache_onload)
next
  case (reach_dimension st type v)
  then show ?case by (simp add: cache_dimension)
next
  case (reach_quality st q)
  then show ?case by (simp add: cache_keys_staged_def setQuality_def)
next
  case (reach_lock st b)
  then show ?case by (simp add: cache_keys_staged_def setMaintainAspectRatio_def)
next
  case (reach_resize st env)
  then show ?case by (simp add: cache_resize)
next
  case (reach_remove st imageId)
  then show ?case by (simp add: cache_remove)
next
  case (reach_clear st)
  show ?case by (simp add: cache_clear)
qed

text \<open>
  Claim C9 at a failing input.  One image is staged and the batch is started; while it
  awaits its response the image is removed, which also deletes its cached result; the
  batch then stores the map it built from the list of the render in which it was started.
  The cache ends with the key of an image that is no longer staged.
\<close>

theorem removal_during_batch_orphans_result:
  "reachable one_staged
   \<and> cache_keys_staged one_staged
   \<and> originalImages (handleResize_interleaved env_ok (removeImage ''ida'') one_staged) = []
   \<and> resizedImages (handleResize_interleaved env_ok (removeImage ''ida'') one_staged) ''ida'' = Some ''blob:0''
   \<and> \<not> cache_keys_staged (handleResize_interleaved env_ok (removeImage ''ida'') one_staged)"
proof -
  have r: "reachable one_staged"
    unfolding one_staged_def by (intro reach_onload reach_select reach_initial)
  have "originalImages (handleResize_interleaved env_ok (removeImage ''ida'') one_staged) = []"
    and c: "resizedImages (handleResize_interleaved env_ok (removeImage ''ida'') one_staged) ''ida'' = Some ''blob:0''"
    by (simp_all add: one_staged_def stage_defs file_a_def load_a_def handleResize_interleaved_def
        handleResize_start_def handleResize_finish_def removeImage_def env_ok_def form_of_def
        show_int_def char_eval)
  moreover from this have "\<not> cache_keys_staged (handleResize_interleaved env_ok (removeImage ''ida'') one_staged)"
    by (auto simp: cache_keys_staged_def)
  moreover have "cache_keys_staged one_staged"
    by (simp add: cache_keys_staged_def one_staged_def stage_defs file_a_def load_a_def)
  ultimately show ?thesis using r by simp
qed

subsection \<open>The aspect-ratio lock\<close>

lemma narrow_staged_eval:
  "originalImages narrow_staged = [\<lparr>image_file = file_c, preview = ''data:c'', image_width = 6,
    image_height = 17, image_id = ''idc'', ext = getExt file_c\<rparr>]"
  "maintainAspectRatio (resizeOptions narrow_staged)"
  by (simp_all add: narrow_staged_def stage_defs file_defs load_c_def)

lemma ratio_6_17: "js_div (Fin 6) (Fin 17) = Fin (6358023003346583 / 18014398509481984)"
  using fl_eqI [of "- 2" "6 / 17" 6358023003346583]
  by (simp add: pow2_def)

lemma quotient_21_ratio:
  "js_div (Fin 21) (Fin (6358023003346583 / 18014398509481984))
     = Fin (8373880557142015 / 140737488355328)"
  using fl_eqI [of 5 "21 / (6358023003346583 / 18014398509481984)" 8373880557142015]
  by (simp add: pow2_def)

lemma round_quotient: "Math_round (Fin (8373880557142015 / 140737488355328)) = Fin 59"
  by (simp add: floor_eq_iff)

text \<open>
  Claim C7, as the spec states it, fails on a tie: with an image of 6 by 17 pixels and the
  lock enabled, the width 21 asks for \<open>round (21 * 17 / 6) = round 59.5 = 60\<close>, but the
  handler divides by the double nearest to \<open>6 / 17\<close>, gets a quotient just below 59.5, and
  sets the height to 59.
\<close>

theorem tie_rounds_down_in_double_arithmetic:
  "map image_width (originalImages narrow_staged) = [6]
   \<and> map image_height (originalImages narrow_staged) = [17]
   \<and> maintainAspectRatio (resizeOptions narrow_staged)
   \<and> nearest_int (21 * 17 / 6) = 60
   \<and> height (resizeOptions (handleDimensionChange Width (Fin 21) narrow_staged)) = Fin 59"
  by (simp add: narrow_staged_eval handleDimensionChange_def num_of_nat_def ratio_6_17
      quotient_21_ratio round_quotient nearest_int_def floor_eq_iff del: js_div.simps Math_round.simps)

text \<open>
  Claim C7, amended.  With at least one staged image and the lock enabled, editing the width
  to \<open>v\<close> sets the height to \<open>Math.round (v / r)\<close> and editing the height to \<open>v\<close> sets the
  width to \<open>Math.round (v * r)\<close>, where \<open>r\<close> is the double quotient of the first staged
  image's width by its height and the division and product are those of doubles.  With the
  lock disabled, editing one dimension leaves the other unchanged.
\<close>

theorem locked_dimension_follows_double_ratio:
  assumes "originalImages st = firstImage # others"
  shows "(maintainAspectRatio (resizeOptions st) \<longrightarrow>
            resizeOptions (handleDimensionChange Width v st) =
              (resizeOptions st)\<lparr>width := v,
                 height := Math_round (js_div v (js_div (num_of_nat (image_width firstImage))
                                                        (num_of_nat (image_height firstImage))))\<rparr>
          \<and> resizeOptions (handleDimensionChange Height v st) =
              (resizeOptions st)\<lparr>height := v,
                 width := Math_round (js_mul v (js_div (num_of_nat (image_width firstImage))
                                                       (num_of_nat (image_height firstImage))))\<rparr>)
       \<and> (\<not> maintainAspectRatio (resizeOptions st) \<longrightarrow>
            resizeOptions (handleDimensionChange Width v st) = (resizeOptions st)\<lparr>width := v\<rparr>
          \<and> height (resizeOptions (handleDimensionChange Width v st)) = height (resizeOptions st)
          \<and> resizeOptions (handleDimensionChange Height v st) = (resizeOptions st)\<lparr>height := v\<rparr>
          \<and> width (resizeOptions (handleDimensionChange Height v st)) = width (resizeOptions st))"
  using assms by (simp add: handleDimensionChange_def Let_def del: js_div.simps js_mul.simps Math_round.simps)

theorem locked_dimension_follows_double_ratio_witness:
  "originalImages narrow_staged = hd (originalImages narrow_staged) # []
   \<and> maintainAspectRatio (resizeOptions narrow_staged)
   \<and> resizeOptions (handleDimensionChange Width (Fin 21) narrow_staged)
        = (resizeOptions narrow_staged)\<lparr>width := Fin 21, height := Fin 59\<rparr>"
proof -
  have h: "originalImages narrow_staged = hd (originalImages narrow_staged) # []"
    by (simp add: narrow_staged_eval)
  from locked_dimension_follows_double_ratio [OF h, of "Fin 21"] h show ?thesis
    by (simp add: narrow_staged_eval num_of_nat_def ratio_6_17 quotient_21_ratio round_quotient
        del: js_div.simps Math_round.simps)
qed

end
